theory Spec2Isabelle
  imports Main "HOL-Library.Sublist"
begin

section \<open>The smoke tests of the documentation site\<close>

text \<open>
  A shallow embedding of \<^verbatim>\<open>.github/actions/smoke-tests/smoke-tests.js\<close>: the link
  extractor, the retry loop, the five probes and the runner with its exit status.

  Conventions of the embedding.
  \<^item> A JavaScript string is a \<open>string\<close>; a \<open>char\<close> stands for one code unit below 256.
  \<^item> A JavaScript number that holds a count or a time in milliseconds is an \<open>int\<close>.
    The script adds one to such numbers, subtracts and compares them, and computes
    \<open>2^attempt * 1000\<close>, which a double holds exactly for every attempt below 1015.
  \<^item> A thrown \<open>Error\<close> (a rejected promise) is \<open>Inl message\<close>; normal completion is
    \<open>Inr value\<close>.
  \<^item> \<open>await\<close> is sequencing: an asynchronous function is a function from the state
    before the call to its settlement and the state after it.
  \<^item> \<open>console.log\<close> lines are left out: nothing in the script reads them back.
\<close>

subsection \<open>Strings\<close>

definition startsWith :: "string \<Rightarrow> string \<Rightarrow> bool" where
  \<comment> \<open>\<open>s.startsWith(p)\<close>\<close>
  "startsWith s p = prefix p s"

fun includesStr :: "string \<Rightarrow> string \<Rightarrow> bool" where
  \<comment> \<open>\<open>s.includes(t)\<close>: \<open>t\<close> occurs in \<open>s\<close> as a contiguous run of characters\<close>
  "includesStr [] t = (t = [])"
| "includesStr (x # xs) t = (prefix t (x # xs) \<or> includesStr xs t)"

definition digit :: "nat \<Rightarrow> char" where
  "digit d = char_of (48 + d)"

fun showNat :: "nat \<Rightarrow> string" where
  \<comment> \<open>a non-negative integer inside a template literal: its decimal digits\<close>
  "showNat n = (if n < 10 then [digit n] else showNat (n div 10) @ [digit (n mod 10)])"

declare showNat.simps [simp del]

fun join :: "string \<Rightarrow> string list \<Rightarrow> string" where
  \<comment> \<open>\<open>xs.join(sep)\<close>\<close>
  "join sep [] = []"
| "join sep [x] = x"
| "join sep (x # y # ys) = x @ sep @ join sep (y # ys)"

subsection \<open>The regular expression of \<open>extractLinks\<close>\<close>

text \<open>
  \<^verbatim>\<open>/<a\s+(?:[^>]*?\s+)?href="([^"]*)"/gi\<close> is written as a list of items and run by a
  backtracking matcher that tries the alternatives in the order ECMAScript does: a greedy
  quantifier takes one more character first and gives it back when the rest fails, a lazy
  one extends only when the rest fails, an optional group is tried before it is skipped.
  \<open>GroupStart\<close> and \<open>GroupEnd\<close> delimit capture group 1.
\<close>

datatype re =
    Ch "char \<Rightarrow> bool"
  | Star "char \<Rightarrow> bool"
  | LazyStar "char \<Rightarrow> bool"
  | Plus "char \<Rightarrow> bool"
  | Opt "re list"
  | GroupStart
  | GroupEnd

fun weight :: "re \<Rightarrow> nat" where
  "weight (Plus p) = 3"
| "weight (Opt g) = Suc (sum_list (map weight g))"
| "weight _ = 1"

text \<open>
  \<open>rematch items s start cap\<close> matches \<open>items\<close> at the beginning of \<open>s\<close>. \<open>start\<close> is the
  input that was left when the group opened, \<open>cap\<close> the text of the group once it has
  closed. The result is the captured text and the input left after the match.
\<close>

function rematch :: "re list \<Rightarrow> string \<Rightarrow> string \<Rightarrow> string \<Rightarrow> (string \<times> string) option" where
  "rematch [] s start cap = Some (cap, s)"
| "rematch (Ch p # r) [] start cap = None"
| "rematch (Ch p # r) (x # xs) start cap =
     (if p x then rematch r xs start cap else None)"
| "rematch (Star p # r) [] start cap = rematch r [] start cap"
| "rematch (Star p # r) (x # xs) start cap =
     (if p x then
        (case rematch (Star p # r) xs start cap of
           Some m \<Rightarrow> Some m
         | None \<Rightarrow> rematch r (x # xs) start cap)
      else rematch r (x # xs) start cap)"
| "rematch (LazyStar p # r) [] start cap = rematch r [] start cap"
| "rematch (LazyStar p # r) (x # xs) start cap =
     (case rematch r (x # xs) start cap of
        Some m \<Rightarrow> Some m
      | None \<Rightarrow> if p x then rematch (LazyStar p # r) xs start cap else None)"
| "rematch (Plus p # r) s start cap = rematch (Ch p # Star p # r) s start cap"
| "rematch (Opt g # r) s start cap =
     (case rematch (g @ r) s start cap of
        Some m \<Rightarrow> Some m
      | None \<Rightarrow> rematch r s start cap)"
| "rematch (GroupStart # r) s start cap = rematch r s s cap"
| "rematch (GroupEnd # r) s start cap = rematch r s start (take (length start - length s) start)"
  by pat_completeness auto
termination
  by (relation "measures [\<lambda>(items, s, start, cap). sum_list (map weight items),
                          \<lambda>(items, s, start, cap). length s]") auto

definition oneOf :: "string \<Rightarrow> char \<Rightarrow> bool" where
  "oneOf cs c = (c \<in> set cs)"

definition noneOf :: "string \<Rightarrow> char \<Rightarrow> bool" where
  "noneOf cs c = (c \<notin> set cs)"

definition whitespace :: "char \<Rightarrow> bool" where
  \<comment> \<open>\<open>\s\<close> on code units below 256: tab, line feed, vertical tab, form feed, carriage
      return, space and the no-break space\<close>
  "whitespace c = (c \<in> {CHR 0x09, CHR 0x0A, CHR 0x0B, CHR 0x0C, CHR 0x0D, CHR 0x20, CHR 0xA0})"

definition linkRegex :: "re list" where
  \<comment> \<open>the flag \<open>i\<close> lets each letter of the pattern match in either case\<close>
  \<open>linkRegex =
     [Ch (oneOf ''<''), Ch (oneOf ''aA''), Plus whitespace,
      Opt [LazyStar (noneOf ''>''), Plus whitespace],
      Ch (oneOf ''hH''), Ch (oneOf ''rR''), Ch (oneOf ''eE''), Ch (oneOf ''fF''),
      Ch (oneOf ''=''), Ch (oneOf ''"''),
      GroupStart, Star (noneOf ''"''), GroupEnd,
      Ch (oneOf ''"'')]\<close>

fun exec :: "re list \<Rightarrow> string \<Rightarrow> (string \<times> string) option" where
  \<comment> \<open>\<open>regex.exec\<close> with the flag \<open>g\<close>, on the input from \<open>lastIndex\<close> on: the leftmost
      match, as its group 1 and the input from the new \<open>lastIndex\<close> on; \<open>None\<close> is \<open>null\<close>\<close>
  "exec items [] = rematch items [] [] []"
| "exec items (x # xs) =
     (case rematch items (x # xs) [] [] of
        Some m \<Rightarrow> Some m
      | None \<Rightarrow> exec items xs)"

lemma rematch_suffix:
  "rematch items s start cap = Some (c, rest) \<Longrightarrow> length rest \<le> length s"
proof (induction items s start cap arbitrary: c rest rule: rematch.induct)
  case (5 p r x xs start cap)
  show ?case
  proof (cases "p x")
    case False
    with "5.prems" have "rematch r (x # xs) start cap = Some (c, rest)" by simp
    from "5.IH"(3)[OF False this] show ?thesis .
  next
    case True
    show ?thesis
    proof (cases "rematch (Star p # r) xs start cap")
      case None
      with True "5.prems" have "rematch r (x # xs) start cap = Some (c, rest)" by simp
      from "5.IH"(2)[OF True None this] show ?thesis .
    next
      case (Some m)
      with True "5.prems" have "rematch (Star p # r) xs start cap = Some (c, rest)" by simp
      from "5.IH"(1)[OF True this] show ?thesis by simp
    qed
  qed
next
  case (7 p r x xs start cap)
  show ?case
  proof (cases "rematch r (x # xs) start cap")
    case (Some m)
    with "7.prems" have "rematch r (x # xs) start cap = Some (c, rest)" by simp
    from "7.IH"(1)[OF this] show ?thesis .
  next
    case None
    with "7.prems" have px: "p x"
      and m: "rematch (LazyStar p # r) xs start cap = Some (c, rest)"
      by (simp_all split: if_splits)
    from "7.IH"(2)[OF None px m] show ?thesis by simp
  qed
next
  case (9 g r s start cap)
  show ?case
  proof (cases "rematch (g @ r) s start cap")
    case None
    with "9.prems" have "rematch r s start cap = Some (c, rest)" by simp
    from "9.IH"(2)[OF None this] show ?thesis .
  next
    case (Some m)
    with "9.prems" have "rematch (g @ r) s start cap = Some (c, rest)" by simp
    from "9.IH"(1)[OF this] show ?thesis .
  qed
next
  case (3 p r x xs start cap)
  from "3.prems" have px: "p x" and m: "rematch r xs start cap = Some (c, rest)"
    by (simp_all split: if_splits)
  from "3.IH"[OF px m] show ?case by simp
next
  case (1 s start cap)
  then show ?case by simp
next
  case (2 p r start cap)
  then show ?case by simp
next
  case (4 p r start cap)
  from "4.prems" have "rematch r [] start cap = Some (c, rest)" by simp
  from "4.IH"[OF this] show ?case .
next
  case (6 p r start cap)
  from "6.prems" have "rematch r [] start cap = Some (c, rest)" by simp
  from "6.IH"[OF this] show ?case .
next
  case (8 p r s start cap)
  from "8.prems" have "rematch (Ch p # Star p # r) s start cap = Some (c, rest)"
    by (simp only: rematch.simps(8))
  from "8.IH"[OF this] show ?case .
next
  case (10 r s start cap)
  from "10.prems" have "rematch r s s cap = Some (c, rest)" by simp
  from "10.IH"[OF this] show ?case .
next
  case (11 r s start cap)
  from "11.prems"
  have "rematch r s start (take (length start - length s) start) = Some (c, rest)" by simp
  from "11.IH"[OF this] show ?case .
qed

lemma rematch_Ch_shorter:
  assumes "rematch (Ch p # r) s start cap = Some (c, rest)"
  shows "length rest < length s"
proof (cases s)
  case Nil
  with assms show ?thesis by simp
next
  case (Cons x xs)
  with assms have "rematch r xs start cap = Some (c, rest)" by (simp split: if_splits)
  from rematch_suffix[OF this] Cons show ?thesis by simp
qed

lemma exec_shorter:
  "exec (Ch p # r) s = Some (c, rest) \<Longrightarrow> length rest < length s"
proof (induction s)
  case Nil
  then show ?case by simp
next
  case (Cons x xs)
  show ?case
  proof (cases "rematch (Ch p # r) (x # xs) [] []")
    case None
    with Cons show ?thesis by (simp del: rematch.simps)
  next
    case (Some m)
    with Cons.prems have "rematch (Ch p # r) (x # xs) [] [] = Some (c, rest)"
      by (simp del: rematch.simps)
    then show ?thesis by (rule rematch_Ch_shorter)
  qed
qed

lemma exec_linkRegex_shorter:
  "exec linkRegex s = Some (c, rest) \<Longrightarrow> length rest < length s"
  unfolding linkRegex_def by (rule exec_shorter)

function hrefs :: "string \<Rightarrow> string list" where
  \<comment> \<open>the values \<open>match[1]\<close> takes over the iterations of the \<open>while\<close> loop: \<open>exec\<close> is
      repeated from the end of the previous match until it returns \<open>null\<close>\<close>
  "hrefs html =
     (case exec linkRegex html of
        None \<Rightarrow> []
      | Some (href, rest) \<Rightarrow> href # hrefs rest)"
  by pat_completeness auto
termination
  by (relation "measure length") (auto dest: exec_linkRegex_shorter)

declare hrefs.simps [simp del]


subsection \<open>URLs and the outside world\<close>

text \<open>
  \<open>new URL(s)\<close> belongs to the platform. The script reads only these fields of the object;
  the parser itself is a parameter of the model (\<open>None\<close>: the constructor throws a
  \<open>TypeError\<close> whose message is \<open>Invalid URL\<close>).
\<close>

record URL =
  protocol :: string
  host :: string
  hostname :: string
  port :: string
  pathname :: string
  search :: string

definition invalidURL :: string where
  "invalidURL = ''Invalid URL''"

record FetchResponse =
  statusCode :: nat
  headers :: "string \<rightharpoonup> string"
  body :: string

text \<open>
  The world outside the process: the wall clock that \<open>Date.now()\<close> reads, the URLs
  requested so far (oldest first), and whether the file system refuses a write.
\<close>

record world =
  clock :: int
  requests :: "string list"
  fsError :: "string option"

text \<open>
  The script's inputs. \<open>SITE_URL\<close>, \<open>MAX_RETRIES\<close> and \<open>GITHUB_OUTPUT\<close> are the environment
  variables as the script reads them: an unset \<open>SITE_URL\<close> is the string \<open>undefined\<close> in every
  place the script uses it, \<open>MAX_RETRIES\<close> is the parsed number (a \<open>NaN\<close> makes the loop guard
  of \<open>executeTest\<close> false, as a negative number does), and an unset or empty
  \<open>GITHUB_OUTPUT\<close> is \<open>[]\<close>. \<open>network\<close> answers a request (https or http, host name, port,
  path) in the world as it stands: the time the exchange takes, and the error or the
  response it ends with; a request that runs into \<open>TIMEOUT\<close> ends with the error
  \<open>Request timeout\<close>.
\<close>

record env =
  SITE_URL :: string
  MAX_RETRIES :: int
  GITHUB_OUTPUT :: string
  newURL :: "string \<Rightarrow> URL option"
  network :: "world \<Rightarrow> bool \<Rightarrow> string \<Rightarrow> string \<Rightarrow> string \<Rightarrow> int \<times> (string + FetchResponse)"

definition makeRequest :: "env \<Rightarrow> string \<Rightarrow> world \<Rightarrow> (string + FetchResponse) \<times> world" where
  \<comment> \<open>every caller leaves \<open>options\<close> out: the method is GET and there are no headers\<close>
  "makeRequest e url w =
     (case newURL e url of
        None \<Rightarrow> (Inl invalidURL, w)
      | Some urlObj \<Rightarrow>
          (case network e w (protocol urlObj = ''https:'') (hostname urlObj) (port urlObj)
                  (pathname urlObj @ search urlObj) of
             (elapsed, settled) \<Rightarrow>
               (settled, w\<lparr>clock := clock w + elapsed, requests := requests w @ [url]\<rparr>)))"

subsection \<open>\<open>extractLinks\<close>\<close>

definition skipped :: "string \<Rightarrow> bool" where
  \<comment> \<open>anchors, javascript, mailto, tel\<close>
  "skipped href =
     (startsWith href ''#'' \<or> startsWith href ''javascript:'' \<or>
      startsWith href ''mailto:'' \<or> startsWith href ''tel:'')"

definition toAbsolute :: "(string \<Rightarrow> URL option) \<Rightarrow> string \<Rightarrow> string \<Rightarrow> string + string" where
  \<comment> \<open>the value of \<open>absoluteUrl\<close>\<close>
  "toAbsolute parse baseUrl href =
     (if startsWith href ''http://'' \<or> startsWith href ''https://'' then Inr href
      else if startsWith href ''/'' then
        (case parse baseUrl of
           None \<Rightarrow> Inl invalidURL
         | Some base \<Rightarrow> Inr (protocol base @ ''//'' @ host base @ href))
      else
        (case parse baseUrl of
           None \<Rightarrow> Inl invalidURL
         | Some base \<Rightarrow> Inr (protocol base @ ''//'' @ host base @ ''/'' @ href)))"

definition linkOf :: "(string \<Rightarrow> URL option) \<Rightarrow> string \<Rightarrow> string \<Rightarrow> string + string option" where
  \<comment> \<open>one iteration of the loop for the match \<open>href\<close>: it throws, or pushes nothing
      (\<open>None\<close>), or pushes a link\<close>
  "linkOf parse baseUrl href =
     (if skipped href then Inr None
      else
        (case toAbsolute parse baseUrl href of
           Inl err \<Rightarrow> Inl err
         | Inr absoluteUrl \<Rightarrow>
             (case parse baseUrl of
                None \<Rightarrow> Inl invalidURL
              | Some b \<Rightarrow>
                  (case parse absoluteUrl of
                     None \<Rightarrow> Inl invalidURL
                   | Some l \<Rightarrow> Inr (if host b = host l then Some absoluteUrl else None)))))"

fun collectLinks ::
  "(string \<Rightarrow> URL option) \<Rightarrow> string \<Rightarrow> string list \<Rightarrow> string list \<Rightarrow> string + string list" where
  \<comment> \<open>the \<open>while\<close> loop over the matches, \<open>links\<close> being the array built so far\<close>
  "collectLinks parse baseUrl [] links = Inr links"
| "collectLinks parse baseUrl (href # rest) links =
     (case linkOf parse baseUrl href of
        Inl err \<Rightarrow> Inl err
      | Inr None \<Rightarrow> collectLinks parse baseUrl rest links
      | Inr (Some absoluteUrl) \<Rightarrow> collectLinks parse baseUrl rest (links @ [absoluteUrl]))"

fun setAdd :: "string list \<Rightarrow> string \<Rightarrow> string list" where
  \<comment> \<open>\<open>Set.prototype.add\<close> on a set kept in insertion order\<close>
  "setAdd elems x = (if x \<in> set elems then elems else elems @ [x])"

definition newSet :: "string list \<Rightarrow> string list" where
  \<comment> \<open>\<open>[...new Set(links)]\<close>\<close>
  "newSet links = foldl setAdd [] links"

definition extractLinks :: "(string \<Rightarrow> URL option) \<Rightarrow> string \<Rightarrow> string \<Rightarrow> string + string list" where
  "extractLinks parse html baseUrl =
     (case collectLinks parse baseUrl (hrefs html) [] of
        Inl err \<Rightarrow> Inl err
      | Inr links \<Rightarrow> Inr (newSet links))"

subsection \<open>\<open>executeTest\<close>: the retry loop\<close>

datatype status = Passed | Failed

record ProbeResult =
  name :: string
  status :: status
  duration :: int
  attempts :: int
  error :: "string option"

type_synonym action = "world \<Rightarrow> (string + unit) \<times> world"

text \<open>
  The loop runs on the world and on a trail: the calls \<open>executeTest\<close> awaits, in order.
  \<open>Sleep ms\<close> stands for \<open>await sleep(ms)\<close>, \<open>Invoke r\<close> for \<open>await testFn()\<close> that settled
  with \<open>r\<close>. The action works on the world and cannot touch the trail.
\<close>

datatype event = Sleep int | Invoke "string + unit"

record runtime =
  trail :: "event list"
  world :: world

definition sleep :: "int \<Rightarrow> runtime \<Rightarrow> runtime" where
  \<comment> \<open>\<open>setTimeout(resolve, ms)\<close> with a timer that fires on time: the clock has advanced
      by \<open>ms\<close> when the promise resolves. The trail keeps the delay asked for. (The
      platform's timer fires no earlier than asked, and takes a delay above \<open>2^31 - 1\<close> ms
      for 1 ms: elapsed time is not what this model is exact about.)\<close>
  "sleep ms s = s\<lparr>trail := trail s @ [Sleep ms],
                  world := (world s)\<lparr>clock := clock (world s) + ms\<rparr>\<rparr>"

definition invoke :: "action \<Rightarrow> runtime \<Rightarrow> (string + unit) \<times> runtime" where
  "invoke testFn s =
     (case testFn (world s) of
        (r, w') \<Rightarrow> (r, s\<lparr>trail := trail s @ [Invoke r], world := w'\<rparr>))"

definition nullMessage :: string where
  \<comment> \<open>the \<open>TypeError\<close> of \<open>lastError.message\<close> when \<open>lastError\<close> is still \<open>null\<close>\<close>
  "nullMessage = ''Cannot read properties of null (reading 'message')''"

function executeLoop ::
  "string \<Rightarrow> action \<Rightarrow> int \<Rightarrow> int \<Rightarrow> int \<Rightarrow> string option \<Rightarrow> runtime
     \<Rightarrow> (string + ProbeResult) \<times> runtime" where
  "executeLoop testName testFn retries startTime attempt lastError s =
     (if attempt \<le> retries then
        (case invoke testFn (if attempt > 0 then sleep (2 ^ nat attempt * 1000) s else s) of
           (Inr _, s') \<Rightarrow>
             (Inr \<lparr>name = testName, status = Passed,
                   duration = clock (world s') - startTime,
                   attempts = attempt + 1, error = None\<rparr>, s')
         | (Inl message, s') \<Rightarrow>
             executeLoop testName testFn retries startTime (attempt + 1) (Some message) s')
      else
        (case lastError of
           None \<Rightarrow> (Inl nullMessage, s)
         | Some message \<Rightarrow>
             (Inr \<lparr>name = testName, status = Failed,
                   duration = clock (world s) - startTime,
                   attempts = retries + 1, error = Some message\<rparr>, s)))"
  by pat_completeness auto
termination
  by (relation "measure (\<lambda>(testName, testFn, retries, startTime, attempt, lastError, s).
                  nat (retries + 1 - attempt))") auto

declare executeLoop.simps [simp del]

definition executeTest ::
  "string \<Rightarrow> action \<Rightarrow> int \<Rightarrow> runtime \<Rightarrow> (string + ProbeResult) \<times> runtime" where
  "executeTest testName testFn retries s =
     executeLoop testName testFn retries (clock (world s)) 0 None s"


subsection \<open>The five probes\<close>

definition testHomepageLoads :: "env \<Rightarrow> action" where
  "testHomepageLoads e w =
     (case makeRequest e (SITE_URL e) w of
        (Inl err, w') \<Rightarrow> (Inl err, w')
      | (Inr response, w') \<Rightarrow>
          if statusCode response \<noteq> 200 then
            (Inl (''Expected status 200, got '' @ showNat (statusCode response)), w')
          else
            (let contentType =
                   (case headers response ''content-type'' of None \<Rightarrow> [] | Some v \<Rightarrow> v)
             in if \<not> includesStr contentType ''text/html'' then
                  (Inl (''Expected content-type to include text/html, got '' @ contentType), w')
                else if length (body response) = 0 then (Inl ''Response body is empty'', w')
                else (Inr (), w')))"

fun checkPages :: "env \<Rightarrow> string list \<Rightarrow> action" where
  \<comment> \<open>the \<open>for\<close> loop of \<open>testDocumentationPages\<close>\<close>
  "checkPages e [] w = (Inr (), w)"
| "checkPages e (page # pages) w =
     (case makeRequest e (SITE_URL e @ page) w of
        (Inl err, w') \<Rightarrow> (Inl err, w')
      | (Inr response, w') \<Rightarrow>
          if statusCode response \<noteq> 200 then
            (Inl (''Page '' @ page @ '' returned status '' @ showNat (statusCode response)), w')
          else checkPages e pages w')"

definition testDocumentationPages :: "env \<Rightarrow> action" where
  "testDocumentationPages e = checkPages e [''/docs/'', ''/docs/workflows/'', ''/docs/agents/'']"

definition testSearchFunctionality :: "env \<Rightarrow> action" where
  "testSearchFunctionality e w =
     (case makeRequest e (SITE_URL e @ ''/pagefind/pagefind.js'') w of
        (Inl err, w') \<Rightarrow> (Inl err, w')
      | (Inr response, w') \<Rightarrow>
          if statusCode response \<noteq> 200 then
            (Inl (''Search script not found (status '' @ showNat (statusCode response) @ '')''), w')
          else if length (body response) = 0 then (Inl ''Search script is empty'', w')
          else (Inr (), w'))"

fun checkAssets :: "env \<Rightarrow> string list \<Rightarrow> action" where
  \<comment> \<open>the \<open>for\<close> loop of \<open>testAssetsLoad\<close>\<close>
  "checkAssets e [] w = (Inr (), w)"
| "checkAssets e (asset # assets) w =
     (case makeRequest e (SITE_URL e @ asset) w of
        (Inl err, w') \<Rightarrow> (Inl err, w')
      | (Inr response, w') \<Rightarrow>
          if statusCode response \<notin> set [200, 301, 302, 403] then
            (Inl (''Asset '' @ asset @ '' returned unexpected status ''
                    @ showNat (statusCode response)), w')
          else checkAssets e assets w')"

definition testAssetsLoad :: "env \<Rightarrow> action" where
  "testAssetsLoad e = checkAssets e [''/favicon.svg'', ''/_astro/'']"

datatype brokenLink =
    BadStatus string nat      \<comment> \<open>\<open>{ url, status }\<close>\<close>
  | FetchError string string  \<comment> \<open>\<open>{ url, error }\<close>\<close>

fun describeBroken :: "brokenLink \<Rightarrow> string" where
  \<comment> \<open>\<open>`${b.url} (${b.status || b.error})`\<close>: a recorded status is at least 400\<close>
  "describeBroken (BadStatus url st) = url @ '' ('' @ showNat st @ '')''"
| "describeBroken (FetchError url message) = url @ '' ('' @ message @ '')''"

fun checkLinks :: "env \<Rightarrow> string list \<Rightarrow> brokenLink list \<Rightarrow> world \<Rightarrow> brokenLink list \<times> world" where
  \<comment> \<open>the \<open>for\<close> loop of \<open>testNoBrokenLinks\<close>: a failed fetch is caught and recorded\<close>
  "checkLinks e [] brokenLinks w = (brokenLinks, w)"
| "checkLinks e (link # links) brokenLinks w =
     (case makeRequest e link w of
        (Inr linkResponse, w') \<Rightarrow>
          checkLinks e links
            (if statusCode linkResponse \<ge> 400
             then brokenLinks @ [BadStatus link (statusCode linkResponse)]
             else brokenLinks) w'
      | (Inl message, w') \<Rightarrow> checkLinks e links (brokenLinks @ [FetchError link message]) w')"

definition testNoBrokenLinks :: "env \<Rightarrow> action" where
  "testNoBrokenLinks e w =
     (case makeRequest e (SITE_URL e) w of
        (Inl err, w') \<Rightarrow> (Inl err, w')
      | (Inr response, w') \<Rightarrow>
          if statusCode response \<noteq> 200 then
            (Inl (''Homepage returned status '' @ showNat (statusCode response)), w')
          else
            (case extractLinks (newURL e) (body response) (SITE_URL e) of
               Inl err \<Rightarrow> (Inl err, w')
             | Inr links \<Rightarrow>
                 (case checkLinks e (take 20 links) [] w' of
                    (brokenLinks, w'') \<Rightarrow>
                      if length brokenLinks > 0 then
                        (Inl (''Found '' @ showNat (length brokenLinks) @ '' broken links: ''
                                @ join '', '' (map describeBroken brokenLinks)), w'')
                      else (Inr (), w''))))"

subsection \<open>\<open>runTests\<close> and the exit status\<close>

record Summary =
  total :: int
  passed :: int
  failed :: int
  summaryDuration :: int

record RunReport =
  summary :: Summary
  tests :: "ProbeResult list"

record outputs =
  resultsOut :: RunReport
  passedOut :: string
  totalOut :: int
  passedCountOut :: int
  failedCountOut :: int

text \<open>
  The state of the process: the retry loop's runtime, the global \<open>testResults\<close>, the
  report last written to \<^verbatim>\<open>/tmp/smoke-test-results.json\<close> and the lines appended to the
  file \<open>GITHUB_OUTPUT\<close> names. JSON text is kept as the value it serialises.
\<close>

record proc =
  run :: runtime
  testResults :: RunReport
  resultsFile :: "RunReport option"
  githubOutput :: "outputs list"

definition recordResult :: "ProbeResult \<Rightarrow> RunReport \<Rightarrow> RunReport" where
  \<comment> \<open>the body of the runner's loop after \<open>executeTest\<close> has returned \<open>result\<close>\<close>
  "recordResult result r =
     (let r1 = r\<lparr>tests := tests r @ [result]\<rparr>;
          r2 = r1\<lparr>summary := (summary r1)\<lparr>total := total (summary r1) + 1\<rparr>\<rparr>
      in if status result = Passed
         then r2\<lparr>summary := (summary r2)\<lparr>passed := passed (summary r2) + 1\<rparr>\<rparr>
         else r2\<lparr>summary := (summary r2)\<lparr>failed := failed (summary r2) + 1\<rparr>\<rparr>)"

fun runLoop :: "(string \<times> action) list \<Rightarrow> int \<Rightarrow> proc \<Rightarrow> (string + unit) \<times> proc" where
  \<comment> \<open>\<open>for (const test of tests)\<close>: an exception of \<open>executeTest\<close> leaves the loop\<close>
  "runLoop [] retries p = (Inr (), p)"
| "runLoop ((testName, fn) # rest) retries p =
     (case executeTest testName fn retries (run p) of
        (Inl err, s') \<Rightarrow> (Inl err, p\<lparr>run := s'\<rparr>)
      | (Inr result, s') \<Rightarrow>
          runLoop rest retries
            (p\<lparr>run := s', testResults := recordResult result (testResults p)\<rparr>))"

datatype outcome =
    Returned      \<comment> \<open>the promise of \<open>runTests()\<close> is fulfilled\<close>
  | Exited int    \<comment> \<open>\<open>process.exit(code)\<close> inside \<open>runTests\<close>\<close>
  | Threw string  \<comment> \<open>the promise is rejected\<close>

definition runTests :: "env \<Rightarrow> (string \<times> action) list \<Rightarrow> proc \<Rightarrow> outcome \<times> proc" where
  \<comment> \<open>\<open>suite\<close> is the constant \<open>tests\<close> of the function, made a parameter\<close>
  "runTests e suite p =
     (let overallStartTime = clock (world (run p)) in
      case runLoop suite (MAX_RETRIES e) p of
        (Inl err, p') \<Rightarrow> (Threw err, p')
      | (Inr _, p1) \<Rightarrow>
          (let r = testResults p1;
               p2 = p1\<lparr>testResults :=
                         r\<lparr>summary := (summary r)\<lparr>summaryDuration :=
                               clock (world (run p1)) - overallStartTime\<rparr>\<rparr>\<rparr>
           in case fsError (world (run p2)) of
                Some err \<Rightarrow> (Threw err, p2)
              | None \<Rightarrow>
                  (let p3 = p2\<lparr>resultsFile := Some (testResults p2)\<rparr>;
                       sm = summary (testResults p3);
                       p4 = (if GITHUB_OUTPUT e \<noteq> [] then
                               p3\<lparr>githubOutput := githubOutput p3 @
                                    [\<lparr>resultsOut = testResults p3,
                                      passedOut = (if failed sm = 0 then ''true'' else ''false''),
                                      totalOut = total sm,
                                      passedCountOut = passed sm,
                                      failedCountOut = failed sm\<rparr>]\<rparr>
                             else p3)
                   in if failed (summary (testResults p4)) > 0 then (Exited 1, p4)
                      else (Returned, p4))))"

definition suiteOf :: "env \<Rightarrow> (string \<times> action) list" where
  \<comment> \<open>the value of \<open>tests\<close> in the script\<close>
  "suiteOf e =
     [(''Homepage loads'', testHomepageLoads e),
      (''Documentation pages accessible'', testDocumentationPages e),
      (''Search functionality works'', testSearchFunctionality e),
      (''Assets load correctly'', testAssetsLoad e),
      (''No broken links on homepage'', testNoBrokenLinks e)]"

definition initialProc :: "world \<Rightarrow> proc" where
  \<comment> \<open>the module's globals when \<open>runTests()\<close> is called\<close>
  "initialProc w =
     \<lparr>run = \<lparr>trail = [], world = w\<rparr>,
      testResults = \<lparr>summary = \<lparr>total = 0, passed = 0, failed = 0, summaryDuration = 0\<rparr>,
                     tests = []\<rparr>,
      resultsFile = None,
      githubOutput = []\<rparr>"

fun exitCode :: "outcome \<Rightarrow> int" where
  \<comment> \<open>the exit status of the process: \<open>.catch\<close> turns a rejection into \<open>process.exit(1)\<close>,
      and a process that runs to its end exits with 0\<close>
  "exitCode Returned = 0"
| "exitCode (Exited code) = code"
| "exitCode (Threw err) = 1"

definition script :: "env \<Rightarrow> (string \<times> action) list \<Rightarrow> world \<Rightarrow> int \<times> proc" where
  \<comment> \<open>\<open>runTests().catch(...)\<close>, for the suite given\<close>
  "script e suite w = (case runTests e suite (initialProc w) of (oc, p) \<Rightarrow> (exitCode oc, p))"

definition smokeTests :: "env \<Rightarrow> world \<Rightarrow> int \<times> proc" where
  \<comment> \<open>the script as it is: the five probes\<close>
  "smokeTests e w = script e (suiteOf e) w"


subsection \<open>Reading the trail\<close>

text \<open>
  \<open>outcomes s s'\<close> lists how the invocations made between the states \<open>s\<close> and \<open>s'\<close> settled,
  in order. \<open>schedule a rs\<close> is the trail of a loop that starts at attempt \<open>a\<close> and whose
  invocations settle as \<open>rs\<close>: every attempt but attempt 0 is preceded by its sleep.
\<close>

fun invocations :: "event list \<Rightarrow> (string + unit) list" where
  "invocations [] = []"
| "invocations (Sleep ms # es) = invocations es"
| "invocations (Invoke r # es) = r # invocations es"

definition outcomes :: "runtime \<Rightarrow> runtime \<Rightarrow> (string + unit) list" where
  "outcomes s s' = invocations (drop (length (trail s)) (trail s'))"

fun schedule :: "nat \<Rightarrow> (string + unit) list \<Rightarrow> event list" where
  "schedule a [] = []"
| "schedule a (r # rs) =
     (if a = 0 then [] else [Sleep (2 ^ a * 1000)]) @ Invoke r # schedule (Suc a) rs"

subsection \<open>Reading \<open>extractLinks\<close>\<close>

text \<open>
  \<open>pushedLink\<close> is the link an iteration of the loop pushes for a match, if it pushes one;
  \<open>pushedLinks\<close> is the array \<open>links\<close> at the end of the loop when no iteration throws: the
  links pushed for the matches of the page, in the order of the page.
\<close>

definition pushedLink :: "(string \<Rightarrow> URL option) \<Rightarrow> string \<Rightarrow> string \<Rightarrow> string option" where
  "pushedLink parse baseUrl href =
     (case linkOf parse baseUrl href of Inl err \<Rightarrow> None | Inr pushed \<Rightarrow> pushed)"

definition pushedLinks :: "(string \<Rightarrow> URL option) \<Rightarrow> string \<Rightarrow> string \<Rightarrow> string list" where
  "pushedLinks parse baseUrl html = List.map_filter (pushedLink parse baseUrl) (hrefs html)"

subsection \<open>The invariant of the report\<close>

text \<open>
  What the runner keeps true of the report after every probe, for the maximum number of
  retries it was given.
\<close>

definition reportInvariant :: "int \<Rightarrow> RunReport \<Rightarrow> bool" where
  "reportInvariant retries r =
     (total (summary r) = int (length (tests r)) \<and>
      passed (summary r) + failed (summary r) = total (summary r) \<and>
      0 \<le> passed (summary r) \<and> 0 \<le> failed (summary r) \<and>
      (\<forall>t \<in> set (tests r).
         1 \<le> attempts t \<and> attempts t \<le> retries + 1 \<and>
         (error t \<noteq> None \<longleftrightarrow> status t = Failed)))"

subsection \<open>Examples\<close>

text \<open>
  The examples need a parser and a network. \<open>exampleURL\<close> reads \<open>http\<close> and \<open>https\<close> URLs whose
  host is written in lower-case letters, digits, dots and hyphens, without port or
  credentials, where it agrees with the platform's parser; it rejects everything else.
  \<open>exampleEnv html\<close> is a site that answers every request after 10 ms with status 200
  and content type \<open>text/html\<close>: the page \<open>html\<close> at the path \<open>/\<close>, the text \<open>ok\<close> elsewhere.
  \<open>bareEnv\<close> is the same site answering without a \<open>content-type\<close> header.
\<close>

definition exampleURL :: "string \<Rightarrow> URL option" where
  "exampleURL s =
     (let proto = (if prefix ''https://'' s then ''https:''
                   else if prefix ''http://'' s then ''http:'' else []);
          rest = drop (length proto + 2) s;
          h = takeWhile (\<lambda>c. c \<notin> set ''/?#'') rest;
          tl = dropWhile (\<lambda>c. c \<notin> set ''/?#'') rest;
          path = takeWhile (\<lambda>c. c \<notin> set ''?#'') tl;
          query = takeWhile (\<lambda>c. c \<noteq> CHR ''#'') (dropWhile (\<lambda>c. c \<notin> set ''?#'') tl)
      in if proto = [] \<or> h = [] \<or>
            \<not> list_all (\<lambda>c. c \<in> set ''abcdefghijklmnopqrstuvwxyz0123456789.-'') h
         then None
         else Some \<lparr>protocol = proto, host = h, hostname = h, port = [],
                     pathname = (if path = [] then ''/'' else path),
                     search = (if query = ''?'' then [] else query)\<rparr>)"

definition exampleEnv :: "string \<Rightarrow> env" where
  "exampleEnv html =
     \<lparr>SITE_URL = ''https://example.com'', MAX_RETRIES = 2, GITHUB_OUTPUT = [],
      newURL = exampleURL,
      network = (\<lambda>w secure h p path.
        (10, Inr \<lparr>statusCode = 200, headers = [''content-type'' \<mapsto> ''text/html''],
                   body = (if path = ''/'' then html else ''ok'')\<rparr>))\<rparr>"

definition bareEnv :: env where
  "bareEnv = (exampleEnv [])\<lparr>network := (\<lambda>w secure h p path.
      (10, Inr \<lparr>statusCode = 200, headers = Map.empty, body = ''ok''\<rparr>))\<rparr>"

definition w0 :: world where
  "w0 = \<lparr>clock = 0, requests = [], fsError = None\<rparr>"

definition s0 :: runtime where
  "s0 = \<lparr>trail = [], world = w0\<rparr>"

text \<open>
  Pages: \<open>anchor href\<close> is an anchor tag, \<open>manyLinks n\<close> a page of \<open>n\<close> different links,
  \<open>mixedPage\<close> a page with a fragment, a mail address and a foreign site among its links,
  \<open>repeatingPage\<close> a page that names each of its two targets twice.
\<close>

definition anchor :: "string \<Rightarrow> string" where
  \<open>anchor href = ''<a href="'' @ href @ ''">x</a>''\<close>

definition manyLinks :: "nat \<Rightarrow> string" where
  "manyLinks n = concat (map (\<lambda>k. anchor (''/p'' @ showNat k)) [0..<n])"

definition mixedPage :: string where
  "mixedPage = anchor ''/a'' @ anchor ''#top'' @ anchor ''mailto:x@y'' @
               anchor ''https://other.org/'' @ anchor ''b.html''"

definition repeatingPage :: string where
  "repeatingPage = anchor ''/a'' @ anchor ''b.html'' @ anchor ''/a'' @ anchor ''/b.html''"

text \<open>
  Actions: \<open>failsUntil t\<close> fails with the message \<open>down\<close> until the clock reaches \<open>t\<close>;
  \<open>twoTests\<close> is a suite of two of them.
\<close>

definition failsUntil :: "int \<Rightarrow> action" where
  "failsUntil t w = (if clock w < t then Inl ''down'' else Inr (), w)"

definition twoTests :: "(string \<times> action) list" where
  "twoTests = [(''t'', failsUntil 6000), (''u'', failsUntil 100000)]"

section \<open>Properties\<close>

subsection \<open>The retry loop\<close>

lemma invocations_append: "invocations (xs @ ys) = invocations xs @ invocations ys"
  by (induction xs rule: invocations.induct) simp_all

lemma invocations_schedule: "invocations (schedule a rs) = rs"
  by (induction rs arbitrary: a) (simp_all add: invocations_append)


lemma executeLoop_trail:
  assumes "0 \<le> a" and "executeLoop n f r t0 a le s = (res, s')"
  shows "\<exists>msgs.
     (trail s' = trail s @ schedule (nat a) (map Inl msgs @ [Inr ()]) \<and>
        a + int (length msgs) \<le> r \<and>
        res = Inr \<lparr>name = n, status = Passed, duration = clock (world s') - t0,
                  attempts = a + int (length msgs) + 1, error = None\<rparr>)
     \<or> (trail s' = trail s @ schedule (nat a) (map Inl msgs) \<and>
        a + int (length msgs) = max a (r + 1) \<and>
        res = (case (if msgs = [] then le else Some (last msgs)) of
                 None \<Rightarrow> Inl nullMessage
               | Some m \<Rightarrow> Inr \<lparr>name = n, status = Failed, duration = clock (world s') - t0,
                  attempts = r + 1, error = Some m\<rparr>))"
  using assms
proof (induction n f r t0 a le s arbitrary: res s' rule: executeLoop.induct)
  case (1 n f r t0 a le s)
  show ?case
  proof (cases "a \<le> r")
    case False
    with "1.prems" show ?thesis
      by (intro exI[of _ "[]"]) (auto simp: executeLoop.simps[of n f r t0 a] split: option.splits)
  next
    case True
    define s1 where "s1 = (if a > 0 then sleep (2 ^ nat a * 1000) s else s)"
    obtain o1 s2 where inv: "invoke f s1 = (o1, s2)" by (cases "invoke f s1")
    have tr2: "trail s2 = trail s @ schedule (nat a) [o1]"
      using inv "1.prems"(1) by (auto simp: invoke_def s1_def sleep_def split: prod.splits)
    show ?thesis
    proof (cases o1)
      case (Inr u)
      with True inv "1.prems" tr2 show ?thesis
        by (intro exI[of _ "[]"]) (auto simp: s1_def executeLoop.simps[of n f r t0 a])
    next
      case (Inl m)
      have rec: "executeLoop n f r t0 (a + 1) (Some m) s2 = (res, s')"
        using True inv Inl "1.prems" by (simp add: s1_def executeLoop.simps[of n f r t0 a])
      have inv': "(Inl m, s2) = invoke f (if 0 < a then sleep (2 ^ nat a * 1000) s else s)"
        using inv Inl by (simp add: s1_def)
      have a1: "0 \<le> a + 1" using "1.prems"(1) by simp
      from "1.IH"[OF True inv' refl a1 rec]
      obtain msgs where
        d: "(trail s' = trail s2 @ schedule (nat (a + 1)) (map Inl msgs @ [Inr ()]) \<and>
             a + 1 + int (length msgs) \<le> r \<and>
             res = Inr \<lparr>name = n, status = Passed, duration = clock (world s') - t0,
                  attempts = a + 1 + int (length msgs) + 1, error = None\<rparr>)
           \<or> (trail s' = trail s2 @ schedule (nat (a + 1)) (map Inl msgs) \<and>
             a + 1 + int (length msgs) = max (a + 1) (r + 1) \<and>
             res = (case (if msgs = [] then Some m else Some (last msgs)) of
                 None \<Rightarrow> Inl nullMessage
               | Some m \<Rightarrow> Inr \<lparr>name = n, status = Failed, duration = clock (world s') - t0,
                  attempts = r + 1, error = Some m\<rparr>))"
        by blast
      have nat_a: "nat (a + 1) = Suc (nat a)" using "1.prems"(1) by simp
      from d True tr2 Inl nat_a show ?thesis
        by (intro exI[of _ "m # msgs"]) (auto simp: max_def)
    qed
  qed
qed

lemma executeTest_cases:
  assumes "executeTest n f r s = (res, s')"
  shows "\<exists>msgs.
     (outcomes s s' = map Inl msgs @ [Inr ()] \<and>
        trail s' = trail s @ schedule 0 (outcomes s s') \<and>
        int (length msgs) \<le> r \<and>
        res = Inr \<lparr>name = n, status = Passed, duration = clock (world s') - clock (world s),
                  attempts = int (length msgs) + 1, error = None\<rparr>)
     \<or> (outcomes s s' = map Inl msgs \<and>
        trail s' = trail s @ schedule 0 (outcomes s s') \<and>
        int (length msgs) = max 0 (r + 1) \<and>
        res = (if msgs = [] then Inl nullMessage
               else Inr \<lparr>name = n, status = Failed, duration = clock (world s') - clock (world s),
                  attempts = r + 1, error = Some (last msgs)\<rparr>))"
proof -
  from assms have run: "executeLoop n f r (clock (world s)) 0 None s = (res, s')"
    by (simp add: executeTest_def)
  from executeLoop_trail[OF _ run] obtain msgs where
    d: "(trail s' = trail s @ schedule (nat 0) (map Inl msgs @ [Inr ()]) \<and>
        0 + int (length msgs) \<le> r \<and>
        res = Inr \<lparr>name = n, status = Passed, duration = clock (world s') - clock (world s),
                  attempts = 0 + int (length msgs) + 1, error = None\<rparr>)
     \<or> (trail s' = trail s @ schedule (nat 0) (map Inl msgs) \<and>
        0 + int (length msgs) = max 0 (r + 1) \<and>
        res = (case (if msgs = [] then None else Some (last msgs)) of
                 None \<Rightarrow> Inl nullMessage
               | Some m \<Rightarrow> Inr \<lparr>name = n, status = Failed,
                  duration = clock (world s') - clock (world s),
                  attempts = r + 1, error = Some m\<rparr>))"
    by blast
  from d show ?thesis
  proof
    assume p: "trail s' = trail s @ schedule (nat 0) (map Inl msgs @ [Inr ()]) \<and>
        0 + int (length msgs) \<le> r \<and>
        res = Inr \<lparr>name = n, status = Passed, duration = clock (world s') - clock (world s),
                  attempts = 0 + int (length msgs) + 1, error = None\<rparr>"
    then have "outcomes s s' = map Inl msgs @ [Inr ()]"
      by (simp add: outcomes_def invocations_schedule)
    with p show ?thesis by (intro exI[of _ msgs]) simp
  next
    assume p: "trail s' = trail s @ schedule (nat 0) (map Inl msgs) \<and>
        0 + int (length msgs) = max 0 (r + 1) \<and>
        res = (case (if msgs = [] then None else Some (last msgs)) of
                 None \<Rightarrow> Inl nullMessage
               | Some m \<Rightarrow> Inr \<lparr>name = n, status = Failed,
                  duration = clock (world s') - clock (world s),
                  attempts = r + 1, error = Some m\<rparr>)"
    then have "outcomes s s' = map Inl msgs"
      by (simp add: outcomes_def invocations_schedule)
    with p show ?thesis by (intro exI[of _ msgs]) simp
  qed
qed


text \<open>
  With a negative number of retries the loop body never runs and reading the message of
  \<open>lastError\<close>, still \<open>null\<close>, throws: \<open>executeTest\<close> returns no result.
\<close>

lemma executeTest_negative_retries:
  assumes "retries < 0"
  shows "executeTest testName testFn retries s = (Inl nullMessage, s)"
  using assms by (simp add: executeTest_def executeLoop.simps[of testName testFn retries])

text \<open>
  C2. When every invocation the run makes fails (and \<open>retries\<close> is not negative),
  \<open>executeTest\<close> makes \<open>retries + 1\<close> invocations and returns a result with status failed,
  \<open>attempts = retries + 1\<close> and, as \<open>error\<close>, the message of the last invocation.
\<close>

theorem executeTest_all_attempts_fail:
  assumes "executeTest testName testFn retries s = (res, s')"
    and "0 \<le> retries"
    and "\<forall>r \<in> set (outcomes s s'). isl r"
  shows "\<exists>msgs. outcomes s s' = map Inl msgs \<and> int (length msgs) = retries + 1 \<and>
           res = Inr \<lparr>name = testName, status = Failed,
                      duration = clock (world s') - clock (world s),
                      attempts = retries + 1, error = Some (last msgs)\<rparr>"
proof -
  from executeTest_cases[OF assms(1)] obtain msgs where
    d: "(outcomes s s' = map Inl msgs @ [Inr ()] \<and>
        trail s' = trail s @ schedule 0 (outcomes s s') \<and>
        int (length msgs) \<le> retries \<and>
        res = Inr \<lparr>name = testName, status = Passed,
                  duration = clock (world s') - clock (world s),
                  attempts = int (length msgs) + 1, error = None\<rparr>)
     \<or> (outcomes s s' = map Inl msgs \<and>
        trail s' = trail s @ schedule 0 (outcomes s s') \<and>
        int (length msgs) = max 0 (retries + 1) \<and>
        res = (if msgs = [] then Inl nullMessage
               else Inr \<lparr>name = testName, status = Failed,
                  duration = clock (world s') - clock (world s),
                  attempts = retries + 1, error = Some (last msgs)\<rparr>))"
    by blast
  have "outcomes s s' \<noteq> map Inl msgs @ [Inr ()]"
    using assms(3) by auto
  with d have f: "outcomes s s' = map Inl msgs"
    and len: "int (length msgs) = max 0 (retries + 1)"
    and res: "res = (if msgs = [] then Inl nullMessage
               else Inr \<lparr>name = testName, status = Failed,
                  duration = clock (world s') - clock (world s),
                  attempts = retries + 1, error = Some (last msgs)\<rparr>)"
    by blast+
  from len assms(2) have "int (length msgs) = retries + 1" and "msgs \<noteq> []" by auto
  with f res show ?thesis by (intro exI[of _ msgs]) simp
qed


theorem executeTest_all_attempts_fail_witness:
  "(0::int) \<le> 1 \<and>
   outcomes s0 (snd (executeTest ''t'' (failsUntil 6000) 1 s0)) = [Inl ''down'', Inl ''down''] \<and>
   fst (executeTest ''t'' (failsUntil 6000) 1 s0) =
     Inr \<lparr>name = ''t'', status = Failed, duration = 2000, attempts = 2, error = Some ''down''\<rparr>"
proof -
  let ?res = "fst (executeTest ''t'' (failsUntil 6000) 1 s0)"
  let ?s = "snd (executeTest ''t'' (failsUntil 6000) 1 s0)"
  have run: "executeTest ''t'' (failsUntil 6000) 1 s0 = (?res, ?s)" by simp
  have outs: "outcomes s0 ?s = [Inl ''down'', Inl ''down'']" by code_simp
  have clk: "clock (world ?s) - clock (world s0) = 2000" by code_simp
  have fails: "\<forall>r \<in> set (outcomes s0 ?s). isl r" by (simp add: outs)
  from executeTest_all_attempts_fail[OF run _ fails] obtain msgs where
    m: "outcomes s0 ?s = map Inl msgs" and
    r: "?res = Inr \<lparr>name = ''t'', status = Failed,
                     duration = clock (world ?s) - clock (world s0),
                     attempts = 1 + 1, error = Some (last msgs)\<rparr>"
    by auto
  from m outs have "map Inl msgs = [Inl ''down'', Inl ''down'' :: string + unit]" by simp
  then have "msgs = [''down'', ''down'']" by (auto simp: map_eq_Cons_conv)
  with r clk outs show ?thesis by simp
qed








subsection \<open>The runner\<close>

lemma executeTest_result:
  assumes "executeTest n f r s = (Inr t, s')"
  shows "1 \<le> attempts t \<and> attempts t \<le> r + 1 \<and> (error t \<noteq> None \<longleftrightarrow> status t = Failed)"
proof -
  from executeTest_cases[OF assms] obtain msgs where
    d: "(int (length msgs) \<le> r \<and>
        Inr t = (Inr \<lparr>name = n, status = Passed, duration = clock (world s') - clock (world s),
                  attempts = int (length msgs) + 1, error = None\<rparr> :: string + ProbeResult))
     \<or> (int (length msgs) = max 0 (r + 1) \<and>
        Inr t = (if msgs = [] then Inl nullMessage
               else Inr \<lparr>name = n, status = Failed, duration = clock (world s') - clock (world s),
                  attempts = r + 1, error = Some (last msgs)\<rparr>))"
    by blast
  from d show ?thesis
  proof
    assume "int (length msgs) \<le> r \<and>
        Inr t = (Inr \<lparr>name = n, status = Passed, duration = clock (world s') - clock (world s),
                  attempts = int (length msgs) + 1, error = None\<rparr> :: string + ProbeResult)"
    then show ?thesis by auto
  next
    assume a: "int (length msgs) = max 0 (r + 1) \<and>
        Inr t = (if msgs = [] then Inl nullMessage
               else Inr \<lparr>name = n, status = Failed, duration = clock (world s') - clock (world s),
                  attempts = r + 1, error = Some (last msgs)\<rparr>)"
    then have ne: "msgs \<noteq> []" by (auto split: if_splits)
    then have "0 < int (length msgs)" by simp
    with a ne show ?thesis by (auto simp: max_def split: if_splits)
  qed
qed

lemma recordResult_invariant:
  assumes "reportInvariant retries r"
    and "1 \<le> attempts t" and "attempts t \<le> retries + 1"
    and "error t \<noteq> None \<longleftrightarrow> status t = Failed"
  shows "reportInvariant retries (recordResult t r)"
  using assms by (auto simp: reportInvariant_def recordResult_def Let_def)

lemma recordResult_tests: "tests (recordResult t r) = tests r @ [t]"
  by (simp add: recordResult_def Let_def)

lemma runLoop_invariant:
  assumes "reportInvariant retries (testResults p)" and "runLoop suite retries p = (x, p')"
  shows "reportInvariant retries (testResults p')"
  using assms
proof (induction suite arbitrary: p)
  case Nil
  then show ?case by simp
next
  case (Cons test rest)
  obtain testName fn where test: "test = (testName, fn)" by (cases test)
  obtain res s' where ex: "executeTest testName fn retries (run p) = (res, s')"
    by (cases "executeTest testName fn retries (run p)")
  show ?case
  proof (cases res)
    case (Inl err)
    with Cons.prems test ex show ?thesis by auto
  next
    case (Inr t)
    let ?p1 = "p\<lparr>run := s', testResults := recordResult t (testResults p)\<rparr>"
    from ex Inr have "executeTest testName fn retries (run p) = (Inr t, s')" by simp
    from executeTest_result[OF this] Cons.prems(1)
    have inv1: "reportInvariant retries (testResults ?p1)"
      by (simp add: recordResult_invariant)
    from Cons.prems(2) test ex Inr have "runLoop rest retries ?p1 = (x, p')" by simp
    from Cons.IH[OF inv1 this] show ?thesis .
  qed
qed

lemma runLoop_length:
  assumes "runLoop suite retries p = (Inr u, p')"
  shows "length (tests (testResults p')) = length (tests (testResults p)) + length suite"
  using assms
proof (induction suite arbitrary: p)
  case Nil
  then show ?case by simp
next
  case (Cons test rest)
  obtain testName fn where test: "test = (testName, fn)" by (cases test)
  obtain res s' where ex: "executeTest testName fn retries (run p) = (res, s')"
    by (cases "executeTest testName fn retries (run p)")
  show ?case
  proof (cases res)
    case (Inl err)
    with Cons.prems test ex show ?thesis by auto
  next
    case (Inr t)
    let ?p1 = "p\<lparr>run := s', testResults := recordResult t (testResults p)\<rparr>"
    from Cons.prems test ex Inr have "runLoop rest retries ?p1 = (Inr u, p')" by simp
    from Cons.IH[OF this] show ?thesis by (simp add: recordResult_tests)
  qed
qed

lemma runLoop_files:
  assumes "runLoop suite retries p = (x, p')"
  shows "resultsFile p' = resultsFile p \<and> githubOutput p' = githubOutput p"
  using assms
proof (induction suite arbitrary: p)
  case Nil
  then show ?case by simp
next
  case (Cons test rest)
  obtain testName fn where test: "test = (testName, fn)" by (cases test)
  obtain res s' where ex: "executeTest testName fn retries (run p) = (res, s')"
    by (cases "executeTest testName fn retries (run p)")
  show ?case
  proof (cases res)
    case (Inl err)
    with Cons.prems test ex show ?thesis by auto
  next
    case (Inr t)
    let ?p1 = "p\<lparr>run := s', testResults := recordResult t (testResults p)\<rparr>"
    from Cons.prems test ex Inr have "runLoop rest retries ?p1 = (x, p')" by simp
    from Cons.IH[OF this] show ?thesis by simp
  qed
qed

lemma initial_invariant: "reportInvariant retries (testResults (initialProc w))"
  by (simp add: reportInvariant_def initialProc_def)

lemma runTests_cases:
  assumes "runTests e suite p = (oc, p')"
  obtains (threw) err pl where "runLoop suite (MAX_RETRIES e) p = (Inl err, pl)"
      "oc = Threw err" "p' = pl"
  | (disk) u pl err where "runLoop suite (MAX_RETRIES e) p = (Inr u, pl)"
      "fsError (world (run pl)) = Some err" "oc = Threw err"
      "tests (testResults p') = tests (testResults pl)"
      "total (summary (testResults p')) = total (summary (testResults pl))"
      "passed (summary (testResults p')) = passed (summary (testResults pl))"
      "failed (summary (testResults p')) = failed (summary (testResults pl))"
      "resultsFile p' = resultsFile pl"
  | (written) u pl where "runLoop suite (MAX_RETRIES e) p = (Inr u, pl)"
      "fsError (world (run pl)) = None"
      "oc = (if failed (summary (testResults pl)) > 0 then Exited 1 else Returned)"
      "tests (testResults p') = tests (testResults pl)"
      "total (summary (testResults p')) = total (summary (testResults pl))"
      "passed (summary (testResults p')) = passed (summary (testResults pl))"
      "failed (summary (testResults p')) = failed (summary (testResults pl))"
      "resultsFile p' = Some (testResults p')"
proof -
  obtain x pl where rl: "runLoop suite (MAX_RETRIES e) p = (x, pl)"
    by (cases "runLoop suite (MAX_RETRIES e) p")
  show thesis
  proof (cases x)
    case (Inl err)
    with assms rl show thesis by (intro threw[of err pl]) (simp_all add: runTests_def)
  next
    case (Inr u)
    show thesis
    proof (cases "fsError (world (run pl))")
      case (Some err)
      with assms rl Inr show thesis
        by (intro disk[of u pl err]) (auto simp: runTests_def Let_def)
    next
      case None
      with assms rl Inr show thesis
        by (intro written[of u pl]) (auto simp: runTests_def Let_def split: if_splits)
    qed
  qed
qed


text \<open>
  C1. Whatever the probes do, the report a run of \<open>runTests\<close> leaves satisfies:
  \<open>summary.total\<close> is the length of \<open>tests\<close>; \<open>passed + failed = total\<close>; every result has
  \<open>1 \<le> attempts \<le> MAX_RETRIES + 1\<close>; and a result has an \<open>error\<close> exactly when its status is
  failed. The report written to the results file is that report, with one result per
  probe; when no report is written, the run ended in an exception.
\<close>

theorem runTests_report_invariants:
  assumes "runTests e suite (initialProc w) = (oc, p)"
  shows "total (summary (testResults p)) = int (length (tests (testResults p))) \<and>
         passed (summary (testResults p)) + failed (summary (testResults p))
           = total (summary (testResults p)) \<and>
         (\<forall>t \<in> set (tests (testResults p)).
            1 \<le> attempts t \<and> attempts t \<le> MAX_RETRIES e + 1 \<and>
            (error t \<noteq> None \<longleftrightarrow> status t = Failed)) \<and>
         (case resultsFile p of
            None \<Rightarrow> \<exists>err. oc = Threw err
          | Some written \<Rightarrow> written = testResults p \<and> length (tests written) = length suite)"
proof -
  have inv: "reportInvariant (MAX_RETRIES e) (testResults p)
        \<and> (case resultsFile p of
            None \<Rightarrow> \<exists>err. oc = Threw err
          | Some written \<Rightarrow> written = testResults p \<and> length (tests written) = length suite)"
    using assms
  proof (cases rule: runTests_cases)
    case (threw err pl)
    from runLoop_invariant[OF initial_invariant threw(1)] runLoop_files[OF threw(1)] threw
    show ?thesis by (simp add: initialProc_def)
  next
    case (disk u pl err)
    from runLoop_invariant[OF initial_invariant disk(1)] runLoop_files[OF disk(1)] disk
    show ?thesis by (simp add: reportInvariant_def initialProc_def)
  next
    case (written u pl)
    from runLoop_length[OF written(1)]
    have "length (tests (testResults pl)) = length suite" by (simp add: initialProc_def)
    with runLoop_invariant[OF initial_invariant written(1)] written
    show ?thesis by (simp add: reportInvariant_def)
  qed
  then show ?thesis by (simp add: reportInvariant_def)
qed

theorem runTests_report_invariants_witness:
  "summary (testResults (snd (runTests (exampleEnv []) twoTests (initialProc w0))))
     = \<lparr>total = 2, passed = 1, failed = 1, summaryDuration = 12000\<rparr> \<and>
   map attempts (tests (testResults (snd (runTests (exampleEnv []) twoTests (initialProc w0)))))
     = [3, 3] \<and>
   total (summary (testResults (snd (runTests (exampleEnv []) twoTests (initialProc w0)))))
     = int (length (tests (testResults (snd (runTests (exampleEnv []) twoTests (initialProc w0)))))) \<and>
   list_all (\<lambda>t. 1 \<le> attempts t \<and> attempts t \<le> MAX_RETRIES (exampleEnv []) + 1 \<and>
                 (error t \<noteq> None \<longleftrightarrow> status t = Failed))
     (tests (testResults (snd (runTests (exampleEnv []) twoTests (initialProc w0))))) \<and>
   resultsFile (snd (runTests (exampleEnv []) twoTests (initialProc w0)))
     = Some (testResults (snd (runTests (exampleEnv []) twoTests (initialProc w0))))"
proof -
  let ?oc = "fst (runTests (exampleEnv []) twoTests (initialProc w0))"
  let ?p = "snd (runTests (exampleEnv []) twoTests (initialProc w0))"
  have run: "runTests (exampleEnv []) twoTests (initialProc w0) = (?oc, ?p)" by simp
  have sm: "summary (testResults ?p) = \<lparr>total = 2, passed = 1, failed = 1, summaryDuration = 12000\<rparr>"
    by code_simp
  have at: "map attempts (tests (testResults ?p)) = [3, 3]" by code_simp
  have oc: "?oc = Exited 1" by code_simp
  from runTests_report_invariants[OF run] oc sm at show ?thesis
    by (auto simp: list_all_iff split: option.splits)
qed


text \<open>
  C8. A run that completes (the promise of \<open>runTests\<close> is not rejected) exits with status
  0 when \<open>summary.failed = 0\<close> and with status 1 otherwise; with no probe in the suite it
  exits with 0.
\<close>

theorem runTests_exit_status:
  assumes "runTests e suite (initialProc w) = (oc, p)" and "\<forall>err. oc \<noteq> Threw err"
  shows "script e suite w = (if failed (summary (testResults p)) = 0 then 0 else 1, p) \<and>
         (suite = [] \<longrightarrow> fst (script e suite w) = 0)"
  using assms(1)
proof (cases rule: runTests_cases)
  case (threw err pl)
  with assms(2) show ?thesis by simp
next
  case (disk u pl err)
  with assms(2) show ?thesis by simp
next
  case (written u pl)
  from runLoop_invariant[OF initial_invariant written(1)]
  have nonneg: "0 \<le> failed (summary (testResults pl))" by (simp add: reportInvariant_def)
  have code: "script e suite w = (exitCode oc, p)" using assms(1) by (simp add: script_def)
  have ex: "exitCode oc = (if failed (summary (testResults p)) = 0 then 0 else 1)"
    using written(3,7) nonneg by auto
  have empty: "failed (summary (testResults p)) = 0" if "suite = []"
  proof -
    from that written(1) have "pl = initialProc w" by simp
    with written(7) show ?thesis by (simp add: initialProc_def)
  qed
  from code ex have first: "script e suite w
      = (if failed (summary (testResults p)) = 0 then 0 else 1, p)" by simp
  have "fst (script e suite w) = 0" if "suite = []"
    using first empty[OF that] by simp
  with first show ?thesis by blast
qed

theorem runTests_exit_status_witness:
  "fst (script (exampleEnv []) twoTests w0) = 1 \<and>
   failed (summary (testResults (snd (runTests (exampleEnv []) twoTests (initialProc w0))))) = 1 \<and>
   fst (script (exampleEnv []) [] w0) = 0 \<and>
   fst (script (exampleEnv []) [(''t'', failsUntil 6000)] w0) = 0 \<and>
   failed (summary (testResults (snd (runTests (exampleEnv []) [(''t'', failsUntil 6000)]
     (initialProc w0))))) = 0"
proof -
  let ?oc = "\<lambda>suite. fst (runTests (exampleEnv []) suite (initialProc w0))"
  let ?p = "\<lambda>suite. snd (runTests (exampleEnv []) suite (initialProc w0))"
  have run: "runTests (exampleEnv []) suite (initialProc w0) = (?oc suite, ?p suite)" for suite
    by simp
  have oc2: "?oc twoTests = Exited 1" by code_simp
  have oc0: "?oc [] = Returned" by code_simp
  have oc1: "?oc [(''t'', failsUntil 6000)] = Returned" by code_simp
  have f2: "failed (summary (testResults (?p twoTests))) = 1" by code_simp
  have f1: "failed (summary (testResults (?p [(''t'', failsUntil 6000)]))) = 0" by code_simp
  have c2: "\<forall>err. ?oc twoTests \<noteq> Threw err" by (simp add: oc2)
  have c0: "\<forall>err. ?oc [] \<noteq> Threw err" by (simp add: oc0)
  have c1: "\<forall>err. ?oc [(''t'', failsUntil 6000)] \<noteq> Threw err" by (simp add: oc1)
  from runTests_exit_status[OF run c2] f2
  have "fst (script (exampleEnv []) twoTests w0) = 1" by simp
  moreover from runTests_exit_status[OF run c0]
  have "fst (script (exampleEnv []) [] w0) = 0" by blast
  moreover from runTests_exit_status[OF run c1] f1
  have "fst (script (exampleEnv []) [(''t'', failsUntil 6000)] w0) = 0" by simp
  ultimately show ?thesis using f2 f1 by simp
qed


subsection \<open>The link extractor\<close>

text \<open>
  The matcher at work: the letters of the pattern match in either case and attributes may
  stand before \<open>href\<close>; a value may hold a \<open>>\<close>; the optional group is tried first, so
  of two \<open>href\<close> attributes in one tag the second is the match; \<open>href\<close> must follow white
  space.
\<close>

lemma hrefs_examples:
  \<open>hrefs ''<p><A  class="c"  HREF="/x>y">t</A> <a href="#top">'' = [''/x>y'', ''#top'']\<close>
  \<open>hrefs ''<a href="x" href="y"> <ahref="z"> <a data-href="u">'' = [''y'']\<close>
  by code_simp+

lemma collectLinks_Inr:
  "collectLinks parse baseUrl hs acc = Inr ls \<Longrightarrow>
     ls = acc @ List.map_filter (pushedLink parse baseUrl) hs"
proof (induction hs arbitrary: acc)
  case Nil
  then show ?case by (simp add: List.map_filter_simps)
next
  case (Cons h hs)
  show ?case
  proof (cases "linkOf parse baseUrl h")
    case (Inl err)
    with Cons.prems show ?thesis by simp
  next
    case (Inr pushed)
    show ?thesis
    proof (cases pushed)
      case None
      with Inr Cons.prems have "collectLinks parse baseUrl hs acc = Inr ls" by simp
      from Cons.IH[OF this] Inr None show ?thesis
        by (simp add: List.map_filter_simps pushedLink_def)
    next
      case (Some u)
      with Inr Cons.prems have "collectLinks parse baseUrl hs (acc @ [u]) = Inr ls" by simp
      from Cons.IH[OF this] Inr Some show ?thesis
        by (simp add: List.map_filter_simps pushedLink_def)
    qed
  qed
qed

lemma newSet_snoc: "newSet (xs @ [x]) = setAdd (newSet xs) x"
  by (simp add: newSet_def)

lemma set_newSet: "set (newSet xs) = set xs"
proof (induction xs rule: rev_induct)
  case Nil
  show ?case by (simp add: newSet_def)
next
  case (snoc x xs)
  then show ?case by (auto simp: newSet_snoc)
qed

lemma distinct_newSet: "distinct (newSet xs)"
proof (induction xs rule: rev_induct)
  case Nil
  show ?case by (simp add: newSet_def)
next
  case (snoc x xs)
  then show ?case by (simp add: newSet_snoc)
qed

lemma newSet_first_occurrences:
  "newSet xs = map (\<lambda>i. xs ! i) (filter (\<lambda>i. xs ! i \<notin> set (take i xs)) [0..<length xs])"
proof (induction xs rule: rev_induct)
  case Nil
  show ?case by (simp add: newSet_def)
next
  case (snoc x xs)
  have f: "filter (\<lambda>i. (xs @ [x]) ! i \<notin> set (take i (xs @ [x]))) [0..<length xs]
         = filter (\<lambda>i. xs ! i \<notin> set (take i xs)) [0..<length xs]"
    by (rule filter_cong) (simp_all add: nth_append)
  have m: "map (\<lambda>i. (xs @ [x]) ! i) (filter (\<lambda>i. xs ! i \<notin> set (take i xs)) [0..<length xs])
         = map (\<lambda>i. xs ! i) (filter (\<lambda>i. xs ! i \<notin> set (take i xs)) [0..<length xs])"
    by (rule map_cong) (simp_all add: nth_append)
  have last: "map (\<lambda>i. (xs @ [x]) ! i)
                  (filter (\<lambda>i. (xs @ [x]) ! i \<notin> set (take i (xs @ [x]))) [length xs])
         = (if x \<in> set xs then [] else [x])"
    by simp
  have "map (\<lambda>i. (xs @ [x]) ! i)
          (filter (\<lambda>i. (xs @ [x]) ! i \<notin> set (take i (xs @ [x]))) [0..<length (xs @ [x])])
      = map (\<lambda>i. (xs @ [x]) ! i)
          (filter (\<lambda>i. (xs @ [x]) ! i \<notin> set (take i (xs @ [x]))) [0..<length xs])
        @ map (\<lambda>i. (xs @ [x]) ! i)
          (filter (\<lambda>i. (xs @ [x]) ! i \<notin> set (take i (xs @ [x]))) [length xs])"
    by (simp only: length_append_singleton upt_Suc_append[OF le0] filter_append map_append)
  also have "\<dots> = newSet xs @ (if x \<in> set xs then [] else [x])"
    by (simp only: f m last snoc.IH[symmetric])
  also have "\<dots> = newSet (xs @ [x])"
    by (simp add: newSet_snoc set_newSet)
  finally show ?case by simp
qed

lemma extractLinks_Inr:
  assumes "extractLinks parse html baseUrl = Inr links"
  shows "links = newSet (List.map_filter (pushedLink parse baseUrl) (hrefs html)) \<and>
         collectLinks parse baseUrl (hrefs html) []
           = Inr (List.map_filter (pushedLink parse baseUrl) (hrefs html))"
proof (cases "collectLinks parse baseUrl (hrefs html) []")
  case (Inl err)
  with assms show ?thesis by (simp add: extractLinks_def)
next
  case (Inr ls)
  from collectLinks_Inr[OF Inr] have "ls = List.map_filter (pushedLink parse baseUrl) (hrefs html)"
    by simp
  with assms Inr show ?thesis by (simp add: extractLinks_def)
qed

lemma pushedLink_Some:
  assumes "pushedLink parse baseUrl href = Some l"
  shows "\<not> skipped href \<and> toAbsolute parse baseUrl href = Inr l \<and>
         (\<exists>b u. parse baseUrl = Some b \<and> parse l = Some u \<and> host u = host b)"
  using assms
  by (auto simp: pushedLink_def linkOf_def split: sum.splits option.splits if_splits)

lemma extractLinks_origin:
  assumes "extractLinks parse html baseUrl = Inr links" and "l \<in> set links"
  shows "\<exists>href \<in> set (hrefs html). pushedLink parse baseUrl href = Some l"
proof -
  from extractLinks_Inr[OF assms(1)] assms(2)
  have "l \<in> set (List.map_filter (pushedLink parse baseUrl) (hrefs html))"
    by (simp add: set_newSet)
  then show ?thesis by (auto simp: List.map_filter_def)
qed


text \<open>
  C5. Every link \<open>extractLinks\<close> returns comes from a match in the page that starts with
  none of \<open>#\<close>, \<open>javascript:\<close>, \<open>mailto:\<close> and \<open>tel:\<close> (it is the absolute URL of that match),
  and the host the parser reads in it is the host it reads in the base URL.
\<close>

theorem extractLinks_excludes:
  assumes "extractLinks parse html baseUrl = Inr links" and "l \<in> set links"
  shows "(\<exists>href \<in> set (hrefs html).
            \<not> startsWith href ''#'' \<and> \<not> startsWith href ''javascript:'' \<and>
            \<not> startsWith href ''mailto:'' \<and> \<not> startsWith href ''tel:'' \<and>
            toAbsolute parse baseUrl href = Inr l) \<and>
         (\<exists>b u. parse baseUrl = Some b \<and> parse l = Some u \<and> host u = host b)"
proof -
  from extractLinks_origin[OF assms] obtain href where
    h: "href \<in> set (hrefs html)" and p: "pushedLink parse baseUrl href = Some l" by blast
  from pushedLink_Some[OF p] h show ?thesis by (auto simp: skipped_def)
qed

theorem extractLinks_excludes_witness:
  "extractLinks exampleURL mixedPage ''https://example.com''
     = Inr [''https://example.com/a'', ''https://example.com/b.html''] \<and>
   hrefs mixedPage = [''/a'', ''#top'', ''mailto:x@y'', ''https://other.org/'', ''b.html''] \<and>
   (\<exists>href \<in> set (hrefs mixedPage).
      \<not> startsWith href ''#'' \<and> \<not> startsWith href ''javascript:'' \<and>
      \<not> startsWith href ''mailto:'' \<and> \<not> startsWith href ''tel:'' \<and>
      toAbsolute exampleURL ''https://example.com'' href = Inr ''https://example.com/b.html'') \<and>
   (\<exists>b u. exampleURL ''https://example.com'' = Some b \<and>
      exampleURL ''https://example.com/b.html'' = Some u \<and> host u = host b)"
proof -
  have run: "extractLinks exampleURL mixedPage ''https://example.com''
     = Inr [''https://example.com/a'', ''https://example.com/b.html'']" by code_simp
  have hs: "hrefs mixedPage = [''/a'', ''#top'', ''mailto:x@y'', ''https://other.org/'', ''b.html'']"
    by code_simp
  have el: "''https://example.com/b.html'' \<in> set [''https://example.com/a'', ''https://example.com/b.html'']"
    by simp
  from extractLinks_excludes[OF run el] run hs show ?thesis by blast
qed

text \<open>
  C6. The list \<open>extractLinks\<close> returns has no duplicates, holds the same URLs as the links
  pushed for the matches of the page, and lists them in the order of their first
  occurrence: it is the pushed links at the positions where a URL occurs for the first
  time.
\<close>

theorem extractLinks_deduplicates:
  assumes "extractLinks parse html baseUrl = Inr links"
  shows "collectLinks parse baseUrl (hrefs html) [] = Inr (pushedLinks parse baseUrl html) \<and>
         distinct links \<and> set links = set (pushedLinks parse baseUrl html) \<and>
         links = map (\<lambda>i. pushedLinks parse baseUrl html ! i)
                   (filter (\<lambda>i. pushedLinks parse baseUrl html ! i
                                  \<notin> set (take i (pushedLinks parse baseUrl html)))
                      [0..<length (pushedLinks parse baseUrl html)])"
proof -
  from extractLinks_Inr[OF assms] have l: "links = newSet (pushedLinks parse baseUrl html)"
    and c: "collectLinks parse baseUrl (hrefs html) [] = Inr (pushedLinks parse baseUrl html)"
    by (simp_all add: pushedLinks_def)
  from l have "distinct links" "set links = set (pushedLinks parse baseUrl html)"
    by (simp_all add: distinct_newSet set_newSet)
  moreover from l newSet_first_occurrences[of "pushedLinks parse baseUrl html"]
  have "links = map (\<lambda>i. pushedLinks parse baseUrl html ! i)
                   (filter (\<lambda>i. pushedLinks parse baseUrl html ! i
                                  \<notin> set (take i (pushedLinks parse baseUrl html)))
                      [0..<length (pushedLinks parse baseUrl html)])"
    by simp
  ultimately show ?thesis using c by blast
qed

theorem extractLinks_deduplicates_witness:
  "extractLinks exampleURL repeatingPage ''https://example.com''
     = Inr [''https://example.com/a'', ''https://example.com/b.html''] \<and>
   pushedLinks exampleURL ''https://example.com'' repeatingPage
     = [''https://example.com/a'', ''https://example.com/b.html'',
        ''https://example.com/a'', ''https://example.com/b.html''] \<and>
   collectLinks exampleURL ''https://example.com'' (hrefs repeatingPage) []
     = Inr (pushedLinks exampleURL ''https://example.com'' repeatingPage) \<and>
   distinct [''https://example.com/a'', ''https://example.com/b.html'']"
proof -
  have run: "extractLinks exampleURL repeatingPage ''https://example.com''
     = Inr [''https://example.com/a'', ''https://example.com/b.html'']"
    by code_simp
  have pushed: "pushedLinks exampleURL ''https://example.com'' repeatingPage
     = [''https://example.com/a'', ''https://example.com/b.html'',
        ''https://example.com/a'', ''https://example.com/b.html'']" by code_simp
  note d = extractLinks_deduplicates[OF run]
  from d have c: "collectLinks exampleURL ''https://example.com'' (hrefs repeatingPage) []
          = Inr (pushedLinks exampleURL ''https://example.com'' repeatingPage)"
    by (rule conjunct1)
  from d have "distinct [''https://example.com/a'', ''https://example.com/b.html'']"
    by (rule conjunct1[OF conjunct2])
  with run pushed c show ?thesis by (intro conjI) assumption+
qed


subsection \<open>The probes\<close>

lemma includesStr_sublist: "includesStr s t = sublist t s"
  by (induction s) (simp_all add: sublist_Cons_right)

lemma includesStr_iff: "includesStr s t \<longleftrightarrow> (\<exists>before after. s = before @ t @ after)"
  by (simp add: includesStr_sublist sublist_def)


text \<open>
  C10. The homepage probe passes exactly when the request succeeds with status 200, a
  \<open>content-type\<close> header that is present and contains \<open>text/html\<close>, and a body that is not
  empty; a response without a \<open>content-type\<close> header makes it fail.
\<close>

theorem testHomepageLoads_passes_iff:
  "(fst (testHomepageLoads e w) = Inr () \<longleftrightarrow>
      (\<exists>response w'. makeRequest e (SITE_URL e) w = (Inr response, w') \<and>
         statusCode response = 200 \<and>
         (\<exists>contentType. headers response ''content-type'' = Some contentType \<and>
            includesStr contentType ''text/html'') \<and>
         body response \<noteq> [])) \<and>
   (makeRequest e (SITE_URL e) w = (Inr response, w') \<longrightarrow>
      headers response ''content-type'' = None \<longrightarrow>
      (\<exists>message. testHomepageLoads e w = (Inl message, w')))"
proof -
  obtain r w1 where mr: "makeRequest e (SITE_URL e) w = (r, w1)"
    by (cases "makeRequest e (SITE_URL e) w")
  show ?thesis
  proof (cases r)
    case (Inl err)
    with mr show ?thesis by (simp add: testHomepageLoads_def)
  next
    case (Inr resp)
    have empty: "\<not> includesStr [] ''text/html''" by simp
    from mr Inr empty show ?thesis
      by (auto simp: testHomepageLoads_def Let_def split: option.splits)
  qed
qed

theorem testHomepageLoads_passes_iff_witness:
  "fst (testHomepageLoads (exampleEnv (anchor ''/a'')) w0) = Inr () \<and>
   headers (projr (fst (makeRequest bareEnv (SITE_URL bareEnv) w0))) ''content-type'' = None \<and>
   (\<exists>message. fst (testHomepageLoads bareEnv w0) = Inl message)"
proof -
  let ?e = "exampleEnv (anchor ''/a'')"
  let ?resp = "projr (fst (makeRequest ?e (SITE_URL ?e) w0))"
  let ?w1 = "snd (makeRequest ?e (SITE_URL ?e) w0)"
  have "\<not> isl (fst (makeRequest ?e (SITE_URL ?e) w0))" by code_simp
  then have mr: "makeRequest ?e (SITE_URL ?e) w0 = (Inr ?resp, ?w1)"
    by (simp add: prod_eq_iff)
  have st: "statusCode ?resp = 200" by code_simp
  have ct: "headers ?resp ''content-type'' = Some ''text/html''" by code_simp
  have inc: "includesStr ''text/html'' ''text/html''" by code_simp
  have bd: "body ?resp \<noteq> []" by code_simp
  from mr st ct inc bd
  have "\<exists>response w'. makeRequest ?e (SITE_URL ?e) w0 = (Inr response, w') \<and>
         statusCode response = 200 \<and>
         (\<exists>contentType. headers response ''content-type'' = Some contentType \<and>
            includesStr contentType ''text/html'') \<and>
         body response \<noteq> []" by blast
  with testHomepageLoads_passes_iff[of ?e w0]
  have pass: "fst (testHomepageLoads ?e w0) = Inr ()" by blast
  let ?resp' = "projr (fst (makeRequest bareEnv (SITE_URL bareEnv) w0))"
  let ?w1' = "snd (makeRequest bareEnv (SITE_URL bareEnv) w0)"
  have "\<not> isl (fst (makeRequest bareEnv (SITE_URL bareEnv) w0))" by code_simp
  then have mr': "makeRequest bareEnv (SITE_URL bareEnv) w0 = (Inr ?resp', ?w1')"
    by (simp add: prod_eq_iff)
  have none: "headers ?resp' ''content-type'' = None" by code_simp
  from testHomepageLoads_passes_iff[of bareEnv w0 ?resp' ?w1'] mr' none
  obtain message where "testHomepageLoads bareEnv w0 = (Inl message, ?w1')" by blast
  then have "fst (testHomepageLoads bareEnv w0) = Inl message" by simp
  with pass none show ?thesis by blast
qed

lemma makeRequest_Inr:
  assumes "makeRequest e url w = (Inr response, w1)"
  shows "requests w1 = requests w @ [url] \<and> newURL e url \<noteq> None"
  using assms by (auto simp: makeRequest_def split: option.splits prod.splits)

lemma makeRequest_requests:
  assumes "newURL e url \<noteq> None"
  shows "requests (snd (makeRequest e url w)) = requests w @ [url]"
  using assms by (auto simp: makeRequest_def split: option.splits prod.splits)

lemma checkLinks_requests:
  assumes "\<forall>l \<in> set ls. newURL e l \<noteq> None"
  shows "requests (snd (checkLinks e ls bl w)) = requests w @ ls"
  using assms
proof (induction ls arbitrary: bl w)
  case Nil
  show ?case by simp
next
  case (Cons l ls)
  obtain r w1 where mr: "makeRequest e l w = (r, w1)" by (cases "makeRequest e l w")
  from Cons.prems have "newURL e l \<noteq> None" by simp
  from makeRequest_requests[OF this, of w] mr have w1: "requests w1 = requests w @ [l]" by simp
  from Cons.prems have rest: "\<forall>l \<in> set ls. newURL e l \<noteq> None" by simp
  show ?case
  proof (cases r)
    case (Inl message)
    with mr Cons.IH[OF rest, of "bl @ [FetchError l message]" w1] w1 show ?thesis by simp
  next
    case (Inr linkResponse)
    with mr Cons.IH[OF rest, of _ w1] w1 show ?thesis by simp
  qed
qed


text \<open>
  C7. When the homepage is fetched with status 200 and its links are extracted, the probe
  requests the homepage and then the first 20 links, in order, and nothing else: all the
  links when there are at most 20, and none of the links after the 20th.
\<close>

theorem testNoBrokenLinks_fetches:
  assumes "makeRequest e (SITE_URL e) w = (Inr response, w1)"
    and "statusCode response = 200"
    and "extractLinks (newURL e) (body response) (SITE_URL e) = Inr links"
  shows "requests (snd (testNoBrokenLinks e w)) = requests w @ SITE_URL e # take 20 links \<and>
         (length links \<le> 20 \<longrightarrow>
            requests (snd (testNoBrokenLinks e w)) = requests w @ SITE_URL e # links) \<and>
         (\<forall>i. 20 \<le> i \<and> i < length links \<longrightarrow> links ! i \<notin> set (take 20 links))"
proof -
  have parsed: "\<forall>l \<in> set (take 20 links). newURL e l \<noteq> None"
  proof
    fix l assume "l \<in> set (take 20 links)"
    then have "l \<in> set links" by (rule in_set_takeD)
    from extractLinks_origin[OF assms(3) this] obtain href where
      "pushedLink (newURL e) (SITE_URL e) href = Some l" by blast
    from pushedLink_Some[OF this] show "newURL e l \<noteq> None" by auto
  qed
  obtain bl w2 where cl: "checkLinks e (take 20 links) [] w1 = (bl, w2)"
    by (cases "checkLinks e (take 20 links) [] w1")
  from checkLinks_requests[OF parsed, of "[]" w1] cl
  have "requests w2 = requests w1 @ take 20 links" by simp
  with makeRequest_Inr[OF assms(1)]
  have w2: "requests w2 = requests w @ SITE_URL e # take 20 links" by simp
  have "snd (testNoBrokenLinks e w) = w2"
    using assms cl by (simp add: testNoBrokenLinks_def)
  with w2 have first: "requests (snd (testNoBrokenLinks e w))
      = requests w @ SITE_URL e # take 20 links" by simp
  from extractLinks_Inr[OF assms(3)] have d: "distinct links" by (simp add: distinct_newSet)
  have beyond: "links ! i \<notin> set (take 20 links)" if "20 \<le> i" "i < length links" for i
  proof
    assume "links ! i \<in> set (take 20 links)"
    then obtain j where j: "j < length (take 20 links)" "take 20 links ! j = links ! i"
      by (auto simp: in_set_conv_nth)
    then have "j < 20" "j < length links" "links ! j = links ! i" by simp_all
    with d that show False by (simp add: nth_eq_iff_index_eq)
  qed
  from first beyond show ?thesis by simp
qed

theorem testNoBrokenLinks_fetches_witness:
  "length (hrefs (manyLinks 22)) = 22 \<and>
   requests (snd (testNoBrokenLinks (exampleEnv (manyLinks 22)) w0))
     = ''https://example.com'' # map (\<lambda>k. ''https://example.com/p'' @ showNat k) [0..<20]"
proof -
  let ?e = "exampleEnv (manyLinks 22)"
  let ?resp = "projr (fst (makeRequest ?e (SITE_URL ?e) w0))"
  let ?w1 = "snd (makeRequest ?e (SITE_URL ?e) w0)"
  let ?links = "map (\<lambda>k. ''https://example.com/p'' @ showNat k) [0..<22]"
  have "\<not> isl (fst (makeRequest ?e (SITE_URL ?e) w0))" by code_simp
  then have mr: "makeRequest ?e (SITE_URL ?e) w0 = (Inr ?resp, ?w1)"
    by (simp add: prod_eq_iff)
  have st: "statusCode ?resp = 200" by code_simp
  have ex: "extractLinks (newURL ?e) (body ?resp) (SITE_URL ?e) = Inr ?links" by code_simp
  have n: "length (hrefs (manyLinks 22)) = 22" by code_simp
  have t: "requests w0 @ SITE_URL ?e # take 20 ?links
     = ''https://example.com'' # map (\<lambda>k. ''https://example.com/p'' @ showNat k) [0..<20]"
    by code_simp
  from testNoBrokenLinks_fetches[OF mr st ex] t n show ?thesis by simp
qed


subsection \<open>The script on the example site\<close>

text \<open>
  Every probe passes at its first attempt; the requests show the order of the probes.
\<close>

lemma smokeTests_example:
  "fst (smokeTests (exampleEnv (anchor ''/a'')) w0) = 0"
  "summary (testResults (snd (smokeTests (exampleEnv (anchor ''/a'')) w0)))
     = \<lparr>total = 5, passed = 5, failed = 0, summaryDuration = 90\<rparr>"
  "requests (world (run (snd (smokeTests (exampleEnv (anchor ''/a'')) w0))))
     = [''https://example.com'', ''https://example.com/docs/'',
        ''https://example.com/docs/workflows/'', ''https://example.com/docs/agents/'',
        ''https://example.com/pagefind/pagefind.js'', ''https://example.com/favicon.svg'',
        ''https://example.com/_astro/'', ''https://example.com'', ''https://example.com/a'']"
  by code_simp+


end
